theory Spec2Isabelle
  imports Main "HOL-Library.Word"
begin

unbundle bit_operations_syntax

section \<open>A fixed-capacity byte buffer (package gofixbuf)\<close>

text \<open>
  The package wraps a caller-supplied byte slice and a write offset. The model follows
  \<^verbatim>\<open>buffer.go\<close> function by function.
  A method returns a value of a sum type: \<open>Inl\<close> is a run-time panic of Go, \<open>Inr\<close> the
  new buffer together with the values the method returns. The returned \<^verbatim>\<open>error\<close> of Go
  is an \<open>error option\<close>, with \<open>None\<close> for \<^verbatim>\<open>nil\<close>.
\<close>

subsection \<open>Machine integers\<close>

text \<open>
  Go's \<^verbatim>\<open>int\<close> has 64 bits on the platforms modelled here, and so has \<^verbatim>\<open>int64\<close>. A value
  is an \<open>int\<close> between \<open>- 2 ^ 63\<close> and \<open>MaxInt\<close>; an addition that leaves this range wraps
  around, as two's complement does.
\<close>

definition MaxInt :: int where
  "MaxInt = 2 ^ 63 - 1"

definition int_add :: "int \<Rightarrow> int \<Rightarrow> int" where
  "int_add a b = (a + b + 2 ^ 63) mod 2 ^ 64 - 2 ^ 63"

subsection \<open>Bytes, runes, slices\<close>

type_synonym byte = "8 word"

text \<open>A \<^verbatim>\<open>rune\<close> is an \<^verbatim>\<open>int32\<close>; it is compared as a signed number.\<close>

type_synonym rune = "32 word"

text \<open>
  A slice is a window onto a backing array: \<open>elems\<close> holds the \<^verbatim>\<open>len(s)\<close> bytes an index
  expression can reach, \<open>spare\<close> the \<^verbatim>\<open>cap(s) - len(s)\<close> array cells behind them, which a
  slice expression with an explicit upper bound can reach. \<^verbatim>\<open>make([]byte, 2, 5)\<close> has
  two bytes in \<open>elems\<close> and three in \<open>spare\<close>; the \<^verbatim>\<open>nil\<close> slice has none of either.
  A slice or a string of Go holds at most \<open>MaxInt\<close> bytes, since its length is an \<^verbatim>\<open>int\<close>.
  A list can be longer: a theorem that depends on it says that its lists are not.
\<close>

record slice =
  elems :: "byte list"
  spare :: "byte list"

definition len :: "slice \<Rightarrow> int" where
  "len s = int (length (elems s))"

definition cap :: "slice \<Rightarrow> int" where
  "cap s = int (length (elems s) + length (spare s))"

definition array_of :: "slice \<Rightarrow> byte list" where
  "array_of s = elems s @ spare s"

text \<open>
  \<open>store_at s i ws\<close> is the slice after the bytes \<open>ws\<close> have been stored in its backing
  array from index \<open>i\<close> on. Its callers store inside the array only.
\<close>

definition store_at :: "slice \<Rightarrow> nat \<Rightarrow> byte list \<Rightarrow> slice" where
  "store_at s i ws =
     (let a = take i (array_of s) @ ws @ drop (i + length ws) (array_of s)
      in \<lparr>elems = take (length (elems s)) a, spare = drop (length (elems s)) a\<rparr>)"

datatype panic = IndexOutOfRange | SliceBoundsOutOfRange

text \<open>
  The errors a call can return: \<open>ErrTooLarge\<close> is the package's own, \<open>EOF\<close> is \<^verbatim>\<open>io.EOF\<close>,
  \<open>SourceError\<close> stands for any other error of a reader.
\<close>

datatype error = ErrTooLarge | EOF | SourceError nat

text \<open>
  \<^verbatim>\<open>copy(s[m:], p)\<close>: the slice expression panics unless \<^verbatim>\<open>0 <= m <= len(s)\<close>; \<^verbatim>\<open>copy\<close> then
  stores as many bytes of \<open>p\<close> as fit between \<open>m\<close> and \<^verbatim>\<open>len(s)\<close> and returns their number.
\<close>

definition copy_from :: "slice \<Rightarrow> int \<Rightarrow> byte list \<Rightarrow> panic + (slice \<times> int)" where
  "copy_from s m p =
     (if m < 0 \<or> len s < m then Inl SliceBoundsOutOfRange
      else let k = min (length (elems s) - nat m) (length p)
           in Inr (store_at s (nat m) (take k p), int k))"

subsection \<open>The buffer\<close>

text \<open>\<^verbatim>\<open>runeBytes\<close> is an array of \<^verbatim>\<open>utf8.UTFMax = 4\<close> bytes.\<close>

type_synonym scratch = "byte \<times> byte \<times> byte \<times> byte"

fun scratch_bytes :: "scratch \<Rightarrow> byte list" where
  "scratch_bytes (a, b, c, d) = [a, b, c, d]"

fun scratch_store :: "byte list \<Rightarrow> scratch \<Rightarrow> scratch" where
  "scratch_store [] t = t"
| "scratch_store [x] (a, b, c, d) = (x, b, c, d)"
| "scratch_store [x, y] (a, b, c, d) = (x, y, c, d)"
| "scratch_store [x, y, z] (a, b, c, d) = (x, y, z, d)"
| "scratch_store (x # y # z # w # _) (a, b, c, d) = (x, y, z, w)"

record Buffer =
  buf :: slice
  off :: int
  runeBytes :: scratch

definition NewBuffer :: "slice \<Rightarrow> Buffer" where
  "NewBuffer s = \<lparr>buf = s, off = 0, runeBytes = (0, 0, 0, 0)\<rparr>"

text \<open>The zero value of the struct: a \<^verbatim>\<open>nil\<close> slice, offset 0.\<close>

definition zero_Buffer :: Buffer where
  "zero_Buffer = \<lparr>buf = \<lparr>elems = [], spare = []\<rparr>, off = 0, runeBytes = (0, 0, 0, 0)\<rparr>"

definition Bytes :: "Buffer \<Rightarrow> byte list" where
  "Bytes b = elems (buf b)"

definition Len :: "Buffer \<Rightarrow> int" where
  "Len b = len (buf b)"

definition Cap :: "Buffer \<Rightarrow> int" where
  "Cap b = cap (buf b)"

definition Reset :: "Buffer \<Rightarrow> Buffer" where
  "Reset b = b\<lparr>off := 0\<rparr>"

definition checkLen :: "Buffer \<Rightarrow> int \<Rightarrow> int \<times> error option" where
  "checkLen b n =
     (if int_add (off b) n > cap (buf b) then (off b, Some ErrTooLarge) else (off b, None))"

definition Write :: "Buffer \<Rightarrow> byte list \<Rightarrow> panic + (Buffer \<times> int \<times> error option)" where
  "Write b p =
     (case checkLen b (int (length p)) of (m, e) \<Rightarrow>
        if e \<noteq> None then Inr (b, 0, e)
        else let b1 = b\<lparr>off := int_add m (int (length p))\<rparr>
             in (case copy_from (buf b1) m p of
                   Inl x \<Rightarrow> Inl x
                 | Inr (s, k) \<Rightarrow> Inr (b1\<lparr>buf := s\<rparr>, k, None)))"

text \<open>A Go string is a sequence of bytes; \<^verbatim>\<open>len(s)\<close> counts them.\<close>

definition WriteString :: "Buffer \<Rightarrow> byte list \<Rightarrow> panic + (Buffer \<times> int \<times> error option)" where
  "WriteString b s =
     (case checkLen b (int (length s)) of (m, e) \<Rightarrow>
        if e \<noteq> None then Inr (b, 0, e)
        else let b1 = b\<lparr>off := int_add m (int (length s))\<rparr>
             in (case copy_from (buf b1) m s of
                   Inl x \<Rightarrow> Inl x
                 | Inr (t, k) \<Rightarrow> Inr (b1\<lparr>buf := t\<rparr>, k, None)))"

text \<open>The index expression \<^verbatim>\<open>b.buf[m]\<close> panics unless \<^verbatim>\<open>0 <= m < len(b.buf)\<close>.\<close>

definition WriteByte :: "Buffer \<Rightarrow> byte \<Rightarrow> panic + (Buffer \<times> error option)" where
  "WriteByte b c =
     (case checkLen b 1 of (m, e) \<Rightarrow>
        if e \<noteq> None then Inr (b, e)
        else if m < 0 \<or> len (buf b) \<le> m then Inl IndexOutOfRange
        else Inr (b\<lparr>buf := (buf b)\<lparr>elems := (elems (buf b))[nat m := c]\<rparr>,
                    off := int_add (off b) 1\<rparr>, None))"

text \<open>
  \<^verbatim>\<open>utf8.EncodeRune\<close> belongs to Go's standard library, not to this package. It is
  modelled after the library: one byte up to \<^verbatim>\<open>0x7F\<close>, two up to \<^verbatim>\<open>0x7FF\<close>, three up to
  \<^verbatim>\<open>0xFFFF\<close>, four up to \<^verbatim>\<open>0x10FFFF\<close>; a surrogate half or a value out of range is encoded
  as \<^verbatim>\<open>utf8.RuneError = 0xFFFD\<close>. The comparisons are those of \<^verbatim>\<open>uint32(r)\<close>. The function
  returns the bytes it stores at the start of its argument; their number is the \<open>n\<close> of
  the library function.
\<close>

definition EncodeRune :: "rune \<Rightarrow> byte list" where
  "EncodeRune r =
     (if r \<le> 0x7F then [ucast r]
      else if r \<le> 0x7FF then
        [0xC0 OR ucast (drop_bit 6 r), 0x80 OR (ucast r AND 0x3F)]
      else if 0x10FFFF < r \<or> (0xD800 \<le> r \<and> r \<le> 0xDFFF) then [0xEF, 0xBF, 0xBD]
      else if r \<le> 0xFFFF then
        [0xE0 OR ucast (drop_bit 12 r), 0x80 OR (ucast (drop_bit 6 r) AND 0x3F),
         0x80 OR (ucast r AND 0x3F)]
      else
        [0xF0 OR ucast (drop_bit 18 r), 0x80 OR (ucast (drop_bit 12 r) AND 0x3F),
         0x80 OR (ucast (drop_bit 6 r) AND 0x3F), 0x80 OR (ucast r AND 0x3F)])"

text \<open>
  \<^verbatim>\<open>utf8.RuneSelf\<close> is \<^verbatim>\<open>0x80\<close>. The results of the inner \<^verbatim>\<open>WriteByte\<close> and \<^verbatim>\<open>Write\<close> are
  dropped by the source; a panic of theirs is not.
\<close>

definition WriteRune :: "Buffer \<Rightarrow> rune \<Rightarrow> panic + (Buffer \<times> int \<times> error option)" where
  "WriteRune b r =
     (if r <s 0x80 then
        (case WriteByte b (ucast r) of
           Inl x \<Rightarrow> Inl x
         | Inr (b1, e) \<Rightarrow> Inr (b1, 1, None))
      else
        let n = length (EncodeRune r);
            b1 = b\<lparr>runeBytes := scratch_store (EncodeRune r) (runeBytes b)\<rparr>
        in case Write b1 (take n (scratch_bytes (runeBytes b1))) of
             Inl x \<Rightarrow> Inl x
           | Inr (b2, k, e) \<Rightarrow> Inr (b2, int n, None))"

subsection \<open>Reading from a source\<close>

text \<open>
  An \<^verbatim>\<open>io.Reader\<close> is supplied by the caller. Its \<^verbatim>\<open>Read(p)\<close> is a function of the reader's
  state and of the window \<open>p\<close> it is handed: it returns the bytes it stored at the start
  of the window, the count \<open>m\<close> and the error it reports, and its next state. A reader
  cannot store outside the window, so the bytes beyond the window's length are dropped.
\<close>

type_synonym 'r reader = "'r \<Rightarrow> byte list \<Rightarrow> byte list \<times> int \<times> error option \<times> 'r"

text \<open>
  The window \<^verbatim>\<open>b.buf[b.off:cap(b.buf)]\<close> handed to the reader, and the buffer after one
  \<^verbatim>\<open>Read\<close> that stored \<open>ws\<close> and reported \<open>m\<close>, followed by \<^verbatim>\<open>b.off += m\<close>.
\<close>

definition window :: "Buffer \<Rightarrow> byte list" where
  "window b = drop (nat (off b)) (array_of (buf b))"

definition pulled :: "Buffer \<Rightarrow> byte list \<Rightarrow> int \<Rightarrow> Buffer" where
  "pulled b ws m =
     b\<lparr>buf := store_at (buf b) (nat (off b)) (take (length (window b)) ws),
       off := int_add (off b) m\<rparr>"

text \<open>
  The loop of \<^verbatim>\<open>ReadFrom\<close>, with the running total \<open>n\<close>, an \<^verbatim>\<open>int64\<close>, as an argument. The slice
  expression of the window panics unless \<^verbatim>\<open>0 <= b.off <= cap(b.buf)\<close>. A loop that never
  stops has the value \<open>None\<close>.
\<close>

partial_function (option) ReadFrom_loop ::
  "'r reader \<Rightarrow> Buffer \<Rightarrow> 'r \<Rightarrow> int \<Rightarrow> (panic + (Buffer \<times> 'r \<times> int \<times> error option)) option"
where
  "ReadFrom_loop rd b r n =
     (if off b < 0 \<or> cap (buf b) < off b then Some (Inl SliceBoundsOutOfRange)
      else case rd r (window b) of (ws, m, e, r') \<Rightarrow>
        let b' = pulled b ws m;
            n' = int_add n m
        in if e \<noteq> None \<or> m = 0 then Some (Inr (b', r', n', e))
           else ReadFrom_loop rd b' r' n')"

declare ReadFrom_loop.simps [code]

definition ReadFrom ::
  "'r reader \<Rightarrow> Buffer \<Rightarrow> 'r \<Rightarrow> (panic + (Buffer \<times> 'r \<times> int \<times> error option)) option"
where
  "ReadFrom rd b r = ReadFrom_loop rd b r 0"

subsection \<open>Callers\<close>

text \<open>
  The source the package's tests read from is a \<^verbatim>\<open>bytes.Buffer\<close> of Go's standard
  library. Its state is the list of its unread bytes: \<^verbatim>\<open>Read\<close> copies as many as fit,
  and reports \<^verbatim>\<open>io.EOF\<close> once it is empty, unless the window is empty too.
\<close>

definition bytesReader :: "byte list reader" where
  "bytesReader r w =
     (if r = [] then (if w = [] then ([], 0, None, r) else ([], 0, Some EOF, r))
      else let k = min (length w) (length r) in (take k r, int k, None, drop k r))"


text \<open>A sequence of \<^verbatim>\<open>Write\<close> calls, with the pair each call returns.\<close>

fun WriteAll :: "Buffer \<Rightarrow> byte list list \<Rightarrow> panic + (Buffer \<times> (int \<times> error option) list)" where
  "WriteAll b [] = Inr (b, [])"
| "WriteAll b (p # ps) =
     (case Write b p of
        Inl x \<Rightarrow> Inl x
      | Inr (b1, n, e) \<Rightarrow>
          (case WriteAll b1 ps of
             Inl x \<Rightarrow> Inl x
           | Inr (b2, rs) \<Rightarrow> Inr (b2, (n, e) # rs)))"

text \<open>
  Any sequence of calls of the methods that change the buffer; the values they return
  are dropped. A panic ends the sequence, a call that never returns gives \<open>None\<close>.
\<close>

datatype 'r call =
    CallWrite "byte list"
  | CallWriteString "byte list"
  | CallWriteByte byte
  | CallWriteRune rune
  | CallReadFrom "'r reader" 'r
  | CallReset

fun do_call :: "'r call \<Rightarrow> Buffer \<Rightarrow> (panic + Buffer) option" where
  "do_call (CallWrite p) b = Some (map_sum id fst (Write b p))"
| "do_call (CallWriteString s) b = Some (map_sum id fst (WriteString b s))"
| "do_call (CallWriteByte c) b = Some (map_sum id fst (WriteByte b c))"
| "do_call (CallWriteRune r) b = Some (map_sum id fst (WriteRune b r))"
| "do_call (CallReadFrom rd r) b = map_option (map_sum id fst) (ReadFrom rd b r)"
| "do_call CallReset b = Some (Inr (Reset b))"

fun do_calls :: "'r call list \<Rightarrow> Buffer \<Rightarrow> (panic + Buffer) option" where
  "do_calls [] b = Some (Inr b)"
| "do_calls (c # cs) b =
     (case do_call c b of
        None \<Rightarrow> None
      | Some (Inl x) \<Rightarrow> Some (Inl x)
      | Some (Inr b1) \<Rightarrow> do_calls cs b1)"

subsection \<open>The specification's reading of the buffer\<close>

text \<open>The written prefix \<^verbatim>\<open>storage[0:cursor]\<close> of the specification.\<close>

definition written_prefix :: "Buffer \<Rightarrow> byte list" where
  "written_prefix b = take (nat (off b)) (array_of (buf b))"



section \<open>Properties\<close>

subsection \<open>Additions that do not wrap\<close>

lemma int_add_in_range:
  assumes "0 \<le> a" and "0 \<le> b" and "a + b \<le> MaxInt"
  shows "int_add a b = a + b"
proof -
  have "0 \<le> a + b + 2 ^ 63"
    using assms(1,2) by simp
  moreover have "a + b + 2 ^ 63 < 2 ^ 64"
    using assms(3) by (simp add: MaxInt_def)
  ultimately have "(a + b + 2 ^ 63) mod 2 ^ 64 = a + b + 2 ^ 63"
    by (rule mod_pos_pos_trivial)
  then show ?thesis
    by (simp add: int_add_def)
qed

subsection \<open>Stores into the backing array\<close>

lemma array_of_store_at:
  "i + length ws \<le> length (array_of s) \<Longrightarrow>
     array_of (store_at s i ws) = take i (array_of s) @ ws @ drop (i + length ws) (array_of s)"
  by (simp only: store_at_def array_of_def Let_def slice.simps append_take_drop_id)

lemma length_elems_store_at:
  "i + length ws \<le> length (array_of s) \<Longrightarrow> length (elems (store_at s i ws)) = length (elems s)"
proof -
  assume "i + length ws \<le> length (array_of s)"
  then have "length (elems s) \<le> length (take i (array_of s) @ ws @ drop (i + length ws) (array_of s))"
    by (simp add: array_of_def)
  then show ?thesis
    by (simp only: store_at_def Let_def slice.simps length_take min_absorb2)
qed

lemma length_array_store_at:
  "i + length ws \<le> length (array_of s) \<Longrightarrow> length (array_of (store_at s i ws)) = length (array_of s)"
  by (simp add: array_of_store_at)

lemma cap_store_at:
  "i + length ws \<le> length (array_of s) \<Longrightarrow> cap (store_at s i ws) = cap s"
  using length_array_store_at [of i ws s] by (simp add: cap_def array_of_def)

lemma len_store_at:
  "i + length ws \<le> length (array_of s) \<Longrightarrow> len (store_at s i ws) = len s"
  by (simp add: len_def length_elems_store_at)

subsection \<open>Single writes\<close>

lemma checkLen_in_range:
  assumes "0 \<le> off b" and "0 \<le> n" and "off b + n \<le> MaxInt"
  shows "checkLen b n = (off b, if Cap b < off b + n then Some ErrTooLarge else None)"
  using int_add_in_range [OF assms] by (simp add: checkLen_def Cap_def)

lemma checkLen_offset: "fst (checkLen b n) = off b"
  by (simp add: checkLen_def)

lemma checkLen_error: "snd (checkLen b n) = Some e \<Longrightarrow> e = ErrTooLarge"
  by (simp add: checkLen_def split: if_splits)

lemma Write_too_large:
  assumes "0 \<le> off b" and "off b + int (length p) \<le> MaxInt"
    and "Cap b < off b + int (length p)"
  shows "Write b p = Inr (b, 0, Some ErrTooLarge)"
proof -
  have "checkLen b (int (length p)) = (off b, Some ErrTooLarge)"
    using checkLen_in_range [OF assms(1) _ assms(2)] assms(3) by simp
  then show ?thesis
    by (simp add: Write_def)
qed

lemma Write_fits:
  assumes "0 \<le> off b" and "off b + int (length p) \<le> MaxInt"
    and "off b + int (length p) \<le> Len b"
  shows "Write b p =
    Inr (b\<lparr>off := off b + int (length p),
            buf := (buf b)\<lparr>elems := take (nat (off b)) (Bytes b) @ p @
                                    drop (nat (off b) + length p) (Bytes b)\<rparr>\<rparr>,
         int (length p), None)"
proof -
  have fit: "nat (off b) + length p \<le> length (elems (buf b))"
    using assms by (simp add: Len_def len_def)
  have k: "min (length (elems (buf b)) - nat (off b)) (length p) = length p"
    using fit by simp
  have st: "store_at (buf b) (nat (off b)) p =
      (buf b)\<lparr>elems := take (nat (off b)) (elems (buf b)) @ p @
                         drop (nat (off b) + length p) (elems (buf b))\<rparr>"
    using fit by (simp add: store_at_def array_of_def Let_def)
  have "\<not> Cap b < off b + int (length p)"
    using assms(3) by (simp add: Cap_def cap_def Len_def len_def)
  then have chk: "checkLen b (int (length p)) = (off b, None)"
    using checkLen_in_range [OF assms(1) _ assms(2)] by simp
  have add: "int_add (off b) (int (length p)) = off b + int (length p)"
    using assms(1) _ assms(2) by (rule int_add_in_range) simp
  have cp: "copy_from (buf b) (off b) p = Inr (store_at (buf b) (nat (off b)) p, int (length p))"
    using assms fit by (simp add: copy_from_def len_def Len_def k)
  show ?thesis
    by (simp add: Write_def chk add cp st Bytes_def)
qed

lemma WriteString_Write: "WriteString b s = Write b s"
  by (simp add: WriteString_def Write_def)

lemma Write_returns_error:
  assumes "Write b p = Inr (b', n, Some e)"
  shows "e = ErrTooLarge \<and> n = 0 \<and> b' = b"
  using assms
  by (auto simp: Write_def checkLen_def Let_def split: if_splits sum.splits)

lemma WriteByte_too_large:
  assumes "0 \<le> off b" and "off b + 1 \<le> MaxInt" and "Cap b < off b + 1"
  shows "WriteByte b c = Inr (b, Some ErrTooLarge)"
proof -
  have "checkLen b 1 = (off b, Some ErrTooLarge)"
    using checkLen_in_range [OF assms(1) _ assms(2)] assms(3) by simp
  then show ?thesis
    by (simp add: WriteByte_def)
qed

lemma WriteByte_returns_error:
  assumes "WriteByte b c = Inr (b', Some e)"
  shows "e = ErrTooLarge \<and> b' = b"
  using assms
  by (auto simp: WriteByte_def checkLen_def split: if_splits)

lemma WriteByte_fits:
  assumes "0 \<le> off b" and "off b + 1 \<le> MaxInt" and "off b < Len b"
  shows "WriteByte b c =
    Inr (b\<lparr>buf := (buf b)\<lparr>elems := (Bytes b)[nat (off b) := c]\<rparr>, off := off b + 1\<rparr>, None)"
proof -
  have "\<not> Cap b < off b + 1"
    using assms(3) by (simp add: Cap_def cap_def Len_def len_def)
  then have chk: "checkLen b 1 = (off b, None)"
    using checkLen_in_range [OF assms(1) _ assms(2)] by simp
  have add: "int_add (off b) 1 = off b + 1"
    using assms(1) _ assms(2) by (rule int_add_in_range) simp
  show ?thesis
    using assms(1,3) by (simp add: WriteByte_def chk add Len_def Bytes_def)
qed

text \<open>
  Outside that range the sum wraps: at the offset \<open>MaxInt\<close> the check of one more byte
  passes, and \<^verbatim>\<open>Write\<close> and \<^verbatim>\<open>WriteByte\<close> panic in their slice and index expressions.
\<close>

lemma writes_wrap_at_MaxInt:
  "Write \<lparr>buf = \<lparr>elems = [0], spare = []\<rparr>, off = MaxInt, runeBytes = (0, 0, 0, 0)\<rparr> [0x41] =
     Inl SliceBoundsOutOfRange \<and>
   WriteByte \<lparr>buf = \<lparr>elems = [0], spare = []\<rparr>, off = MaxInt, runeBytes = (0, 0, 0, 0)\<rparr> 0x41 =
     Inl IndexOutOfRange"
  by (simp add: Write_def WriteByte_def checkLen_def copy_from_def cap_def len_def int_add_def
      MaxInt_def)

text \<open>
  On a region that is a full slice, with the offset not negative and the sums within
  the range of \<^verbatim>\<open>int\<close>, the writes of bytes do not panic.
\<close>

lemma full_region_no_panic:
  assumes "spare (buf b) = []" and "0 \<le> off b"
    and "off b + int (length p) \<le> MaxInt" and "off b + 1 \<le> MaxInt"
  shows "Write b p \<noteq> Inl x \<and> WriteString b p \<noteq> Inl x \<and> WriteByte b c \<noteq> Inl x"
proof -
  have w: "Write b p \<noteq> Inl x"
  proof (cases "Cap b < off b + int (length p)")
    case True
    with assms(2,3) show ?thesis by (simp add: Write_too_large)
  next
    case False
    with assms(1) have "off b + int (length p) \<le> Len b"
      by (simp add: Cap_def cap_def Len_def len_def)
    from Write_fits [OF assms(2,3) this] show ?thesis by simp
  qed
  have "WriteByte b c \<noteq> Inl x"
  proof (cases "Cap b < off b + 1")
    case True
    with assms(2,4) show ?thesis by (simp add: WriteByte_too_large)
  next
    case False
    with assms(1) have "off b < Len b"
      by (simp add: Cap_def cap_def Len_def len_def)
    from WriteByte_fits [OF assms(2,4) this] show ?thesis by simp
  qed
  with w show ?thesis by (simp add: WriteString_Write)
qed

subsection \<open>Runes\<close>

lemma ascii_is_below_RuneSelf:
  assumes "(r :: rune) \<le> 0x7F"
  shows "r <s 0x80"
proof -
  have u: "uint r \<le> 127"
    using assms by (simp add: word_le_def)
  have "(- (2 ^ 31) :: int) \<le> 0" by simp
  also have "0 \<le> uint r" by simp
  finally have lo: "- (2 ^ 31) \<le> uint r" .
  have "(127 :: int) < 2 ^ 31" by simp
  with u have hi: "uint r < 2 ^ 31" by (rule le_less_trans)
  have "signed_take_bit 31 (uint r) = uint r"
    using lo hi by (rule signed_take_bit_int_eq_self)
  then show ?thesis
    using u by (simp add: word_sless_alt sint_uint)
qed

lemma length_EncodeRune: "1 \<le> length (EncodeRune r) \<and> length (EncodeRune r) \<le> 4"
  by (simp add: EncodeRune_def)

lemma length_EncodeRune_multibyte:
  assumes "\<not> r <s 0x80"
  shows "2 \<le> length (EncodeRune r)"
proof -
  from assms have "\<not> r \<le> 0x7F"
    using ascii_is_below_RuneSelf by blast
  then show ?thesis by (simp add: EncodeRune_def)
qed

lemma scratch_prefix:
  "length q \<le> 4 \<Longrightarrow> take (length q) (scratch_bytes (scratch_store q t)) = q"
  by (induction q t rule: scratch_store.induct) simp_all

lemma WriteRune_multibyte_Write:
  assumes "\<not> r <s 0x80"
  shows "WriteRune b r =
    (case Write (b\<lparr>runeBytes := scratch_store (EncodeRune r) (runeBytes b)\<rparr>) (EncodeRune r) of
       Inl x \<Rightarrow> Inl x
     | Inr (b2, k, e) \<Rightarrow> Inr (b2, int (length (EncodeRune r)), None))"
  using assms length_EncodeRune [of r]
  by (simp add: WriteRune_def Let_def scratch_prefix)

lemma WriteRune_returns:
  assumes "WriteRune b r = Inr (b', n, e)"
  shows "n = (if r <s 0x80 then 1 else int (length (EncodeRune r))) \<and> e = None"
proof (cases "r <s 0x80")
  case True
  with assms show ?thesis
    by (auto simp: WriteRune_def split: sum.splits)
next
  case False
  with assms show ?thesis
    by (auto simp: WriteRune_multibyte_Write split: sum.splits)
qed

text \<open>
  On a region that is a full slice, a rune below \<^verbatim>\<open>utf8.RuneSelf\<close> gives the count 1 and
  no error, also when \<^verbatim>\<open>WriteByte\<close> has returned \<open>ErrTooLarge\<close>.
\<close>

lemma WriteRune_single_byte_full_region:
  assumes "r <s 0x80" and "spare (buf b) = []" and "0 \<le> off b" and "off b + 1 \<le> MaxInt"
  shows "\<exists>b'. WriteRune b r = Inr (b', 1, None) \<and>
           (Cap b < off b + 1 \<longrightarrow>
              WriteByte b (ucast r) = Inr (b, Some ErrTooLarge) \<and> b' = b) \<and>
           (off b + 1 \<le> Cap b \<longrightarrow>
              b' = b\<lparr>buf := (buf b)\<lparr>elems := (Bytes b)[nat (off b) := ucast r]\<rparr>,
                     off := off b + 1\<rparr>)"
proof (cases "Cap b < off b + 1")
  case True
  from WriteByte_too_large [OF assms(3,4) this] True assms(1) show ?thesis
    by (simp add: WriteRune_def)
next
  case False
  with assms(2) have "off b < Len b"
    by (simp add: Cap_def cap_def Len_def len_def)
  from WriteByte_fits [OF assms(3,4) this] False assms(1) show ?thesis
    by (simp add: WriteRune_def)
qed

subsection \<open>Sequences of writes\<close>

lemma WriteAll_fits:
  assumes "0 \<le> off b" and "off b + int (length (concat ps)) \<le> Len b" and "Len b \<le> MaxInt"
  shows "\<exists>b'. WriteAll b ps = Inr (b', map (\<lambda>p. (int (length p), None)) ps) \<and>
           off b' = off b + int (length (concat ps)) \<and>
           spare (buf b') = spare (buf b) \<and>
           Bytes b' = take (nat (off b)) (Bytes b) @ concat ps @
                      drop (nat (off b) + length (concat ps)) (Bytes b)"
  using assms
proof (induction ps arbitrary: b)
  case Nil
  then show ?case by (simp add: Bytes_def)
next
  case (Cons p ps)
  let ?b1 = "b\<lparr>off := off b + int (length p),
            buf := (buf b)\<lparr>elems := take (nat (off b)) (Bytes b) @ p @
                                    drop (nat (off b) + length p) (Bytes b)\<rparr>\<rparr>"
  have w: "Write b p = Inr (?b1, int (length p), None)"
    using Cons.prems by (intro Write_fits) simp_all
  have fit: "nat (off b) + length p + length (concat ps) \<le> length (Bytes b)"
    using Cons.prems by (simp add: Len_def len_def Bytes_def)
  have len1: "Len ?b1 = Len b"
    using fit by (simp add: Len_def len_def Bytes_def)
  have "0 \<le> off ?b1" and "off ?b1 + int (length (concat ps)) \<le> Len ?b1"
    and "Len ?b1 \<le> MaxInt"
    using Cons.prems len1 by simp_all
  from Cons.IH [OF this] obtain b' where
    all: "WriteAll ?b1 ps = Inr (b', map (\<lambda>p. (int (length p), None)) ps)"
    and o: "off b' = off ?b1 + int (length (concat ps))"
    and sp: "spare (buf b') = spare (buf ?b1)"
    and bts: "Bytes b' = take (nat (off ?b1)) (Bytes ?b1) @ concat ps @
                      drop (nat (off ?b1) + length (concat ps)) (Bytes ?b1)"
    by blast
  have n1: "nat (off ?b1) = nat (off b) + length p"
    using Cons.prems by (simp add: nat_add_distrib)
  have t: "take (nat (off b) + length p) (Bytes ?b1) = take (nat (off b)) (Bytes b) @ p"
    using fit by (simp add: Bytes_def)
  have d: "drop (nat (off b) + length p + length (concat ps)) (Bytes ?b1) =
           drop (nat (off b) + length p + length (concat ps)) (Bytes b)"
    using fit by (simp add: Bytes_def add.commute add.left_commute)
  have "Bytes b' = take (nat (off b)) (Bytes b) @ concat (p # ps) @
                      drop (nat (off b) + length (concat (p # ps))) (Bytes b)"
    unfolding bts n1 t d by (simp add: add.assoc)
  moreover have "WriteAll b (p # ps) = Inr (b', map (\<lambda>p. (int (length p), None)) (p # ps))"
    by (simp add: w all)
  moreover have "off b' = off b + int (length (concat (p # ps)))"
    using o by simp
  moreover have "spare (buf b') = spare (buf b)"
    using sp by simp
  ultimately show ?case by blast
qed

subsection \<open>What every call leaves alone\<close>

lemma copy_from_len_cap:
  assumes "copy_from s m p = Inr (t, k)"
  shows "len t = len s \<and> cap t = cap s"
proof -
  from assms have m: "0 \<le> m" "m \<le> len s"
    by (auto simp: copy_from_def split: if_splits)
  define j where "j = min (length (elems s) - nat m) (length p)"
  from assms m have t: "t = store_at s (nat m) (take j p)"
    by (simp add: copy_from_def j_def Let_def)
  have "nat m + length (take j p) \<le> length (array_of s)"
    using m by (simp add: j_def len_def array_of_def)
  then show ?thesis
    unfolding t by (simp add: len_store_at cap_store_at)
qed

lemma Write_Len_Cap:
  assumes "Write b p = Inr (b', n, e)"
  shows "Len b' = Len b \<and> Cap b' = Cap b"
proof (cases "snd (checkLen b (int (length p)))")
  case (Some err)
  then have "checkLen b (int (length p)) = (off b, Some err)"
    using checkLen_offset [of b "int (length p)"] by (cases "checkLen b (int (length p))") simp
  with assms show ?thesis
    by (simp add: Write_def)
next
  case None
  then have chk: "checkLen b (int (length p)) = (off b, None)"
    using checkLen_offset [of b "int (length p)"] by (cases "checkLen b (int (length p))") simp
  from assms obtain t k where
    cp: "copy_from (buf b) (off b) p = Inr (t, k)" and b': "buf b' = t"
    by (auto simp: Write_def chk split: sum.splits)
  from copy_from_len_cap [OF cp] b' show ?thesis
    by (simp add: Len_def Cap_def)
qed

lemma WriteByte_Len_Cap:
  assumes "WriteByte b c = Inr (b', e)"
  shows "Len b' = Len b \<and> Cap b' = Cap b"
  using assms
  by (auto simp: WriteByte_def checkLen_def Len_def Cap_def len_def cap_def split: if_splits)

lemma WriteRune_Len_Cap:
  assumes "WriteRune b r = Inr (b', n, e)"
  shows "Len b' = Len b \<and> Cap b' = Cap b"
proof (cases "r <s 0x80")
  case True
  with assms obtain e1 where "WriteByte b (ucast r) = Inr (b', e1)"
    by (auto simp: WriteRune_def split: sum.splits)
  then show ?thesis by (rule WriteByte_Len_Cap)
next
  case False
  define b1 where "b1 = b\<lparr>runeBytes := scratch_store (EncodeRune r) (runeBytes b)\<rparr>"
  from False assms obtain q k e1 where "Write b1 q = Inr (b', k, e1)"
    by (auto simp: WriteRune_def Let_def b1_def split: sum.splits)
  from Write_Len_Cap [OF this] show ?thesis
    by (simp add: b1_def Len_def Cap_def)
qed

lemma length_window:
  "length (window b) = length (array_of (buf b)) - nat (off b)"
  by (simp add: window_def)

lemma pulled_fits:
  "off b \<le> cap (buf b) \<Longrightarrow>
     nat (off b) + length (take (length (window b)) ws) \<le> length (array_of (buf b))"
  by (simp add: length_window cap_def array_of_def)

lemma pulled_Len_Cap:
  assumes "off b \<le> cap (buf b)"
  shows "Len (pulled b ws m) = Len b \<and> Cap (pulled b ws m) = Cap b"
  using pulled_fits [OF assms, of ws]
  by (simp add: pulled_def Len_def Cap_def len_store_at cap_store_at)

lemma ReadFrom_loop_Len_Cap:
  assumes "ReadFrom_loop rd b r n = Some (Inr (b', r', n', e))"
  shows "Len b' = Len b \<and> Cap b' = Cap b"
proof -
  let ?P = "\<lambda>(rd :: 'r reader) b (r :: 'r) (n :: int)
               (y :: panic + (Buffer \<times> 'r \<times> int \<times> error option)).
              \<forall>b' r' n' e. y = Inr (b', r', n', e) \<longrightarrow> Len b' = Len b \<and> Cap b' = Cap b"
  have "?P rd b r n (Inr (b', r', n', e))"
  proof (rule ReadFrom_loop.raw_induct [where P = ?P, OF _ assms], goal_cases)
    case (1 loop rd b r n y)
    note IH = 1(1) and body = 1(2)
    show ?case
    proof (cases "off b < 0 \<or> cap (buf b) < off b")
      case True
      with body show ?thesis by auto
    next
      case False
      then have ok: "off b \<le> cap (buf b)" by simp
      obtain ws m e1 r1 where rd: "rd r (window b) = (ws, m, e1, r1)"
        by (cases "rd r (window b)") auto
      show ?thesis
      proof (cases "e1 \<noteq> None \<or> m = 0")
        case True
        with body False rd have "y = Inr (pulled b ws m, r1, int_add n m, e1)"
          by (auto simp: Let_def)
        then show ?thesis using pulled_Len_Cap [OF ok] by simp
      next
        case stop: False
        with body False rd have "loop rd (pulled b ws m) r1 (int_add n m) = Some y"
          by (auto simp: Let_def)
        from IH [OF this] show ?thesis using pulled_Len_Cap [OF ok, of ws m] by simp
      qed
    qed
  qed
  then show ?thesis by blast
qed

lemma do_call_Len_Cap:
  assumes "do_call c b = Some (Inr b')"
  shows "Len b' = Len b \<and> Cap b' = Cap b"
proof (cases c)
  case (CallWrite p)
  with assms obtain n e where "Write b p = Inr (b', n, e)"
    by (cases "Write b p") auto
  then show ?thesis by (rule Write_Len_Cap)
next
  case (CallWriteString s)
  with assms obtain n e where "Write b s = Inr (b', n, e)"
    by (cases "Write b s") (auto simp: WriteString_Write)
  then show ?thesis by (rule Write_Len_Cap)
next
  case (CallWriteByte x)
  with assms obtain e where "WriteByte b x = Inr (b', e)"
    by (cases "WriteByte b x") auto
  then show ?thesis by (rule WriteByte_Len_Cap)
next
  case (CallWriteRune r)
  with assms obtain n e where "WriteRune b r = Inr (b', n, e)"
    by (cases "WriteRune b r") auto
  then show ?thesis by (rule WriteRune_Len_Cap)
next
  case (CallReadFrom rd r)
  with assms have "map_option (map_sum id fst) (ReadFrom_loop rd b r 0) = Some (Inr b')"
    by (simp add: ReadFrom_def)
  then obtain y where y: "ReadFrom_loop rd b r 0 = Some y" "map_sum id fst y = Inr b'"
    by auto
  then obtain r' n e where "ReadFrom_loop rd b r 0 = Some (Inr (b', r', n, e))"
    by (cases y) auto
  then show ?thesis by (rule ReadFrom_loop_Len_Cap)
next
  case CallReset
  with assms show ?thesis by (auto simp: Reset_def Len_def Cap_def)
qed

lemma do_calls_Len_Cap:
  "do_calls cs b = Some (Inr b') \<Longrightarrow> Len b' = Len b \<and> Cap b' = Cap b"
proof (induction cs arbitrary: b)
  case Nil
  then show ?case by simp
next
  case (Cons c cs)
  from Cons.prems obtain b1 where
    c: "do_call c b = Some (Inr b1)" and rest: "do_calls cs b1 = Some (Inr b')"
    by (auto split: option.splits sum.splits)
  from Cons.IH [OF rest] do_call_Len_Cap [OF c] show ?case by simp
qed

subsection \<open>Reading from a source\<close>








section \<open>The claims\<close>

text \<open>
  C1. The claim reads \<^verbatim>\<open>Bytes()\<close> as the written prefix \<^verbatim>\<open>storage[0:cursor]\<close>. The source
  returns \<^verbatim>\<open>b.buf[:]\<close>, the whole region, whatever the offset is: right after construction
  from a region of two bytes, \<^verbatim>\<open>Bytes()\<close> has two bytes and the written prefix none.
\<close>

theorem Bytes_is_not_written_prefix:
  "Bytes (NewBuffer \<lparr>elems = [0x41, 0x41], spare = []\<rparr>) = [0x41, 0x41] \<and>
   written_prefix (NewBuffer \<lparr>elems = [0x41, 0x41], spare = []\<rparr>) = []"
  by (simp add: Bytes_def NewBuffer_def written_prefix_def)

text \<open>
  C1, as amended. \<^verbatim>\<open>Bytes()\<close> of a new buffer is the whole region. After a sequence of
  \<^verbatim>\<open>Write\<close> calls on a new buffer whose lengths add up to at most the region's length (a
  length of Go, at most \<open>MaxInt\<close>),
  every call has returned its full length and no error, the offset is the sum of the
  lengths, and \<^verbatim>\<open>Bytes()\<close> is the concatenation of the inputs followed by the bytes the
  region held from that offset on; the written prefix is the concatenation.
\<close>

theorem Bytes_after_writes:
  assumes "int (length (concat ps)) \<le> len s" and "len s \<le> MaxInt"
  shows "Bytes (NewBuffer s) = elems s \<and>
         (\<exists>b'. WriteAll (NewBuffer s) ps = Inr (b', map (\<lambda>p. (int (length p), None)) ps) \<and>
               off b' = int (length (concat ps)) \<and>
               Bytes b' = concat ps @ drop (length (concat ps)) (elems s) \<and>
               written_prefix b' = concat ps)"
proof -
  have "0 \<le> off (NewBuffer s)"
    and "off (NewBuffer s) + int (length (concat ps)) \<le> Len (NewBuffer s)"
    and "Len (NewBuffer s) \<le> MaxInt"
    using assms by (simp_all add: NewBuffer_def Len_def)
  from WriteAll_fits [OF this] obtain b' where
    all: "WriteAll (NewBuffer s) ps = Inr (b', map (\<lambda>p. (int (length p), None)) ps)"
    and o: "off b' = int (length (concat ps))"
    and bts: "Bytes b' = concat ps @ drop (length (concat ps)) (elems s)"
    by (auto simp: NewBuffer_def Bytes_def)
  have "written_prefix b' = concat ps"
    using bts o by (simp add: written_prefix_def array_of_def Bytes_def)
  with all o bts show ?thesis
    by (auto simp: NewBuffer_def Bytes_def)
qed

theorem Bytes_after_writes_witness:
  "int (length (concat [[0x41], [0x42 :: byte]])) \<le> len \<lparr>elems = [0, 0, 0], spare = []\<rparr> \<and>
   len \<lparr>elems = [0, 0, 0], spare = []\<rparr> \<le> MaxInt \<and>
   (\<exists>b'. WriteAll (NewBuffer \<lparr>elems = [0, 0, 0], spare = []\<rparr>) [[0x41], [0x42]] =
            Inr (b', [(1, None), (1, None)]) \<and>
         off b' = 2 \<and> Bytes b' = [0x41, 0x42, 0] \<and> written_prefix b' = [0x41, 0x42])"
  using Bytes_after_writes [of "[[0x41], [0x42]]" "\<lparr>elems = [0, 0, 0], spare = []\<rparr>"]
  by (simp add: len_def MaxInt_def)

text \<open>
  C2. The claim reads \<^verbatim>\<open>Len()\<close> as the cursor. The source returns \<^verbatim>\<open>len(b.buf)\<close>: right after
  construction from a region of two bytes, \<^verbatim>\<open>Len()\<close> is 2 and the cursor is 0.
\<close>

theorem Len_is_not_cursor:
  "Len (NewBuffer \<lparr>elems = [0x41, 0x41], spare = []\<rparr>) = 2 \<and>
   off (NewBuffer \<lparr>elems = [0x41, 0x41], spare = []\<rparr>) = 0"
  by (simp add: Len_def len_def NewBuffer_def)

text \<open>
  C2, as amended. \<^verbatim>\<open>Len()\<close> is the length of the region, which is the length of
  \<^verbatim>\<open>Bytes()\<close>: it is the region's length right after construction, and \<^verbatim>\<open>Reset\<close> and every
  sequence of calls that returns leave it as it is. The cursor is what is 0 after
  construction and after \<^verbatim>\<open>Reset\<close>.
\<close>

theorem Len_is_region_length:
  "Len (NewBuffer s) = len s \<and> off (NewBuffer s) = 0 \<and>
   Len (Reset b) = Len b \<and> off (Reset b) = 0 \<and>
   Len b = int (length (Bytes b)) \<and>
   (do_calls cs b = Some (Inr b') \<longrightarrow> Len b' = Len b)"
proof -
  have "do_calls cs b = Some (Inr b') \<longrightarrow> Len b' = Len b"
    using do_calls_Len_Cap [of cs b b'] by blast
  then show ?thesis
    by (simp add: NewBuffer_def Len_def Reset_def len_def Bytes_def)
qed

theorem Len_is_region_length_witness:
  "do_calls [CallWrite [0x61], CallReset, CallReadFrom bytesReader [7, 8], CallWriteByte 0x62]
     (NewBuffer \<lparr>elems = [0x41, 0x41, 0x41], spare = []\<rparr>) =
     Some (Inr \<lparr>buf = \<lparr>elems = [7, 8, 0x62], spare = []\<rparr>, off = 3, runeBytes = (0, 0, 0, 0)\<rparr>) \<and>
   Len \<lparr>buf = \<lparr>elems = [7, 8, 0x62], spare = []\<rparr>, off = 3, runeBytes = (0, 0, 0, 0)\<rparr> =
     Len (NewBuffer \<lparr>elems = [0x41, 0x41, 0x41], spare = []\<rparr>)"
proof -
  have run: "do_calls [CallWrite [0x61], CallReset, CallReadFrom bytesReader [7, 8], CallWriteByte 0x62]
     (NewBuffer \<lparr>elems = [0x41, 0x41, 0x41], spare = []\<rparr>) =
     Some (Inr \<lparr>buf = \<lparr>elems = [7, 8, 0x62], spare = []\<rparr>, off = 3, runeBytes = (0, 0, 0, 0)\<rparr>)"
    by code_simp
  from Len_is_region_length
    [of "\<lparr>elems = [0x41, 0x41, 0x41], spare = []\<rparr>"
        "NewBuffer \<lparr>elems = [0x41, 0x41, 0x41], spare = []\<rparr>"
        "[CallWrite [0x61], CallReset, CallReadFrom bytesReader [7, 8], CallWriteByte 0x62]"
        "\<lparr>buf = \<lparr>elems = [7, 8, 0x62], spare = []\<rparr>, off = 3, runeBytes = (0, 0, 0, 0)\<rparr>"]
    run
  show ?thesis by blast
qed

text \<open>
  C8. The claim takes the capacity to be the length of the region. The source returns
  \<^verbatim>\<open>cap(b.buf)\<close>: for the region \<^verbatim>\<open>make([]byte, 0, 5)\<close>, of length 0, \<^verbatim>\<open>Cap()\<close> is 5.
\<close>

theorem Cap_is_not_region_length:
  "Cap (NewBuffer \<lparr>elems = [], spare = [0, 0, 0, 0, 0]\<rparr>) = 5 \<and>
   len \<lparr>elems = [], spare = [0, 0, 0, 0, 0]\<rparr> = 0"
  by (simp add: Cap_def cap_def len_def NewBuffer_def)

text \<open>
  C8, as amended. Right after construction \<^verbatim>\<open>Cap()\<close> is the capacity of the region, which
  is its length when the region is a full slice; every sequence of \<^verbatim>\<open>Write\<close>,
  \<^verbatim>\<open>WriteString\<close>, \<^verbatim>\<open>WriteByte\<close>, \<^verbatim>\<open>WriteRune\<close>, \<^verbatim>\<open>ReadFrom\<close> and \<^verbatim>\<open>Reset\<close> calls that returns
  leaves \<^verbatim>\<open>Cap()\<close> as it is.
\<close>

theorem Cap_is_invariant:
  "Cap (NewBuffer s) = cap s \<and>
   (spare s = [] \<longrightarrow> Cap (NewBuffer s) = len s) \<and>
   (do_calls cs b = Some (Inr b') \<longrightarrow> Cap b' = Cap b)"
proof -
  have "do_calls cs b = Some (Inr b') \<longrightarrow> Cap b' = Cap b"
    using do_calls_Len_Cap [of cs b b'] by blast
  then show ?thesis
    by (simp add: NewBuffer_def Cap_def cap_def len_def)
qed

theorem Cap_is_invariant_witness:
  "spare \<lparr>elems = [0, 0, 0, 0], spare = []\<rparr> = [] \<and>
   do_calls [CallWriteString [0x61, 0x62], CallWriteRune 0xE9, CallWrite [0x63], CallReset,
             CallWriteByte 0x64, CallReadFrom bytesReader [7, 8]]
     (NewBuffer \<lparr>elems = [0, 0, 0, 0], spare = []\<rparr>) =
     Some (Inr \<lparr>buf = \<lparr>elems = [0x64, 7, 8, 0xA9], spare = []\<rparr>, off = 3,
                 runeBytes = (0xC3, 0xA9, 0, 0)\<rparr>) \<and>
   Cap \<lparr>buf = \<lparr>elems = [0x64, 7, 8, 0xA9], spare = []\<rparr>, off = 3,
         runeBytes = (0xC3, 0xA9, 0, 0)\<rparr> = 4 \<and>
   Cap (NewBuffer \<lparr>elems = [0, 0, 0, 0], spare = []\<rparr>) = 4"
proof -
  have run: "do_calls [CallWriteString [0x61, 0x62], CallWriteRune 0xE9, CallWrite [0x63], CallReset,
             CallWriteByte 0x64, CallReadFrom bytesReader [7, 8]]
     (NewBuffer \<lparr>elems = [0, 0, 0, 0], spare = []\<rparr>) =
     Some (Inr \<lparr>buf = \<lparr>elems = [0x64, 7, 8, 0xA9], spare = []\<rparr>, off = 3,
                 runeBytes = (0xC3, 0xA9, 0, 0)\<rparr>)"
    by code_simp
  from Cap_is_invariant
    [of "\<lparr>elems = [0, 0, 0, 0], spare = []\<rparr>"
        "[CallWriteString [0x61, 0x62], CallWriteRune 0xE9, CallWrite [0x63], CallReset,
          CallWriteByte 0x64, CallReadFrom bytesReader [7, 8]]"
        "NewBuffer \<lparr>elems = [0, 0, 0, 0], spare = []\<rparr>"
        "\<lparr>buf = \<lparr>elems = [0x64, 7, 8, 0xA9], spare = []\<rparr>, off = 3,
          runeBytes = (0xC3, 0xA9, 0, 0)\<rparr>"]
    run
  show ?thesis by (simp add: len_def)
qed

text \<open>
  C3. The claim holds of a buffer whose region is a full slice of Go's size
  (\<open>Write_too_large\<close>, \<open>Write_fits\<close>). It fails where the region is shorter than its capacity: \<^verbatim>\<open>checkLen\<close>
  compares with \<^verbatim>\<open>cap(b.buf)\<close>, while \<^verbatim>\<open>copy(b.buf[m:], p)\<close> stops at \<^verbatim>\<open>len(b.buf)\<close>. On
  \<^verbatim>\<open>make([]byte, 2, 5)\<close>, writing three bytes advances the offset by 3, stores two bytes
  and returns the count 2 with no error.
\<close>

theorem Write_partial_count:
  "Write (NewBuffer \<lparr>elems = [0, 0], spare = [0, 0, 0]\<rparr>) [0x61, 0x62, 0x63] =
     Inr (\<lparr>buf = \<lparr>elems = [0x61, 0x62], spare = [0, 0, 0]\<rparr>, off = 3,
            runeBytes = (0, 0, 0, 0)\<rparr>, 2, None)"
  by (simp add: Write_def checkLen_def copy_from_def store_at_def NewBuffer_def cap_def len_def
      array_of_def int_add_def)

text \<open>
  C4. No write of bytes panics on a region that is a full slice (\<open>full_region_no_panic\<close>). On
  the region \<^verbatim>\<open>make([]byte, 0, 5)\<close> the check of \<^verbatim>\<open>WriteByte\<close> against the capacity
  passes and the index expression \<^verbatim>\<open>b.buf[0]\<close> panics; a second \<^verbatim>\<open>Write\<close> panics in its
  slice expression.
\<close>

theorem WriteByte_panics:
  "WriteByte (NewBuffer \<lparr>elems = [], spare = [0, 0, 0, 0, 0]\<rparr>) 0x41 = Inl IndexOutOfRange \<and>
   Write (NewBuffer \<lparr>elems = [], spare = [0, 0, 0, 0, 0]\<rparr>) [0x41] =
     Inr (\<lparr>buf = \<lparr>elems = [], spare = [0, 0, 0, 0, 0]\<rparr>, off = 1, runeBytes = (0, 0, 0, 0)\<rparr>,
          0, None) \<and>
   Write \<lparr>buf = \<lparr>elems = [], spare = [0, 0, 0, 0, 0]\<rparr>, off = 1, runeBytes = (0, 0, 0, 0)\<rparr>
     [0x41] = Inl SliceBoundsOutOfRange"
  by (simp add: WriteByte_def Write_def checkLen_def copy_from_def store_at_def NewBuffer_def
      cap_def len_def array_of_def int_add_def)

text \<open>
  C5. The claim has \<^verbatim>\<open>WriteRune\<close> report whether the inner write succeeded. The source
  drops the result of the inner \<^verbatim>\<open>Write\<close> and returns \<^verbatim>\<open>nil\<close>: on the zero-value buffer,
  \<^verbatim>\<open>WriteRune(0xE9)\<close> returns 2 and no error, while the \<^verbatim>\<open>Write\<close> of the two bytes of the
  encoding returns \<open>ErrTooLarge\<close>.
\<close>

theorem WriteRune_hides_failure:
  "WriteRune zero_Buffer 0xE9 = Inr (zero_Buffer\<lparr>runeBytes := (0xC3, 0xA9, 0, 0)\<rparr>, 2, None) \<and>
   Write (zero_Buffer\<lparr>runeBytes := (0xC3, 0xA9, 0, 0)\<rparr>) [0xC3, 0xA9] =
     Inr (zero_Buffer\<lparr>runeBytes := (0xC3, 0xA9, 0, 0)\<rparr>, 0, Some ErrTooLarge)"
  by code_simp

text \<open>
  C5, as amended. Take a rune of \<^verbatim>\<open>0x80\<close> or more and a buffer whose region is a full slice,
  with an offset that is not negative and that, with the length of the encoding added,
  stays within the range of \<^verbatim>\<open>int\<close>. The encoding has two to four bytes, and \<^verbatim>\<open>WriteRune\<close>
  returns that number and no error, whether the inner \<^verbatim>\<open>Write\<close> succeeded or not. When the
  encoding does not fit the remaining capacity, the region and the offset are as they
  were; when it fits, the encoding is stored at the offset and the offset moves by its
  length.
\<close>

theorem WriteRune_multibyte:
  assumes "\<not> r <s 0x80" and "spare (buf b) = []" and "0 \<le> off b"
    and "off b + int (length (EncodeRune r)) \<le> MaxInt"
  shows "2 \<le> length (EncodeRune r) \<and> length (EncodeRune r) \<le> 4 \<and>
         (\<exists>b'. WriteRune b r = Inr (b', int (length (EncodeRune r)), None) \<and>
               (Cap b < off b + int (length (EncodeRune r)) \<longrightarrow>
                  buf b' = buf b \<and> off b' = off b) \<and>
               (off b + int (length (EncodeRune r)) \<le> Cap b \<longrightarrow>
                  off b' = off b + int (length (EncodeRune r)) \<and>
                  Bytes b' = take (nat (off b)) (Bytes b) @ EncodeRune r @
                             drop (nat (off b) + length (EncodeRune r)) (Bytes b)))"
proof -
  let ?n = "int (length (EncodeRune r))"
  let ?b1 = "b\<lparr>runeBytes := scratch_store (EncodeRune r) (runeBytes b)\<rparr>"
  have o1: "0 \<le> off ?b1" and s1: "off ?b1 + ?n \<le> MaxInt"
    using assms(3,4) by simp_all
  have "\<exists>b'. WriteRune b r = Inr (b', ?n, None) \<and>
               (Cap b < off b + ?n \<longrightarrow> buf b' = buf b \<and> off b' = off b) \<and>
               (off b + ?n \<le> Cap b \<longrightarrow>
                  off b' = off b + ?n \<and>
                  Bytes b' = take (nat (off b)) (Bytes b) @ EncodeRune r @
                             drop (nat (off b) + length (EncodeRune r)) (Bytes b))"
  proof (cases "Cap b < off b + ?n")
    case True
    then have "Cap ?b1 < off ?b1 + ?n"
      by (simp add: Cap_def)
    from Write_too_large [OF o1 s1 this] assms(1) True show ?thesis
      by (simp add: WriteRune_multibyte_Write)
  next
    case False
    with assms(2) have "off ?b1 + ?n \<le> Len ?b1"
      by (simp add: Cap_def cap_def Len_def len_def)
    from Write_fits [OF o1 s1 this] assms(1) False show ?thesis
      by (simp add: WriteRune_multibyte_Write Bytes_def)
  qed
  with length_EncodeRune_multibyte [OF assms(1)] length_EncodeRune [of r]
  show ?thesis by blast
qed

theorem WriteRune_multibyte_witness:
  "\<not> (0x20AC :: rune) <s 0x80 \<and>
   spare (buf (NewBuffer \<lparr>elems = [0, 0], spare = []\<rparr>)) = [] \<and>
   0 \<le> off (NewBuffer \<lparr>elems = [0, 0], spare = []\<rparr>) \<and>
   off (NewBuffer \<lparr>elems = [0, 0], spare = []\<rparr>) + int (length (EncodeRune 0x20AC)) \<le> MaxInt \<and>
   length (EncodeRune 0x20AC) = 3 \<and>
   Cap (NewBuffer \<lparr>elems = [0, 0], spare = []\<rparr>) <
     off (NewBuffer \<lparr>elems = [0, 0], spare = []\<rparr>) + int (length (EncodeRune 0x20AC)) \<and>
   (\<exists>b'. WriteRune (NewBuffer \<lparr>elems = [0, 0], spare = []\<rparr>) 0x20AC = Inr (b', 3, None) \<and>
         buf b' = buf (NewBuffer \<lparr>elems = [0, 0], spare = []\<rparr>) \<and>
         off b' = off (NewBuffer \<lparr>elems = [0, 0], spare = []\<rparr>))"
proof -
  let ?b = "NewBuffer \<lparr>elems = [0, 0], spare = []\<rparr>"
  have r: "\<not> (0x20AC :: rune) <s 0x80" by simp
  have n: "length (EncodeRune 0x20AC) = 3" by code_simp
  have f: "spare (buf ?b) = []" and o: "0 \<le> off ?b"
    by (simp_all add: NewBuffer_def)
  have m: "off ?b + int (length (EncodeRune 0x20AC)) \<le> MaxInt"
    by (simp add: n NewBuffer_def MaxInt_def)
  have c: "Cap ?b < off ?b + int (length (EncodeRune 0x20AC))"
    by (simp add: n Cap_def cap_def NewBuffer_def)
  from WriteRune_multibyte [OF r f o m] c
  have "\<exists>b'. WriteRune ?b 0x20AC = Inr (b', int (length (EncodeRune 0x20AC)), None) \<and>
         buf b' = buf ?b \<and> off b' = off ?b"
    by blast
  with r n f o m c show ?thesis by simp
qed



text \<open>
  C7. A write that ends in \<open>ErrTooLarge\<close> changes nothing. Whenever \<^verbatim>\<open>Write\<close>, \<^verbatim>\<open>WriteString\<close>
  or \<^verbatim>\<open>WriteByte\<close> returns an error, the error is \<open>ErrTooLarge\<close>, the count is 0 and the
  buffer is the one before the call; \<^verbatim>\<open>WriteRune\<close> never returns an error. Such failures
  occur: with an offset that is not negative and a sum within the range of \<^verbatim>\<open>int\<close>, bytes
  that do not fit the remaining capacity make \<^verbatim>\<open>Write\<close>, \<^verbatim>\<open>WriteString\<close> and \<^verbatim>\<open>WriteByte\<close>
  return so, and make \<^verbatim>\<open>WriteRune\<close> return with the region and the offset as they were
  (only the scratch array holds the encoding).
\<close>

theorem too_large_writes_nothing:
  "(\<forall>b' n e. Write b p = Inr (b', n, Some e) \<longrightarrow> e = ErrTooLarge \<and> n = 0 \<and> b' = b) \<and>
   (\<forall>b' n e. WriteString b p = Inr (b', n, Some e) \<longrightarrow> e = ErrTooLarge \<and> n = 0 \<and> b' = b) \<and>
   (\<forall>b' e. WriteByte b c = Inr (b', Some e) \<longrightarrow> e = ErrTooLarge \<and> b' = b) \<and>
   (\<forall>b' n e. WriteRune b r = Inr (b', n, e) \<longrightarrow> e = None) \<and>
   (0 \<le> off b \<and> off b + int (length p) \<le> MaxInt \<and> Cap b < off b + int (length p) \<longrightarrow>
      Write b p = Inr (b, 0, Some ErrTooLarge) \<and>
      WriteString b p = Inr (b, 0, Some ErrTooLarge)) \<and>
   (0 \<le> off b \<and> off b + 1 \<le> MaxInt \<and> Cap b < off b + 1 \<longrightarrow>
      WriteByte b c = Inr (b, Some ErrTooLarge)) \<and>
   (r <s 0x80 \<and> 0 \<le> off b \<and> off b + 1 \<le> MaxInt \<and> Cap b < off b + 1 \<longrightarrow>
      WriteRune b r = Inr (b, 1, None)) \<and>
   (\<not> r <s 0x80 \<and> 0 \<le> off b \<and> off b + int (length (EncodeRune r)) \<le> MaxInt \<and>
    Cap b < off b + int (length (EncodeRune r)) \<longrightarrow>
      (\<exists>b'. WriteRune b r = Inr (b', int (length (EncodeRune r)), None) \<and>
            buf b' = buf b \<and> off b' = off b))"
proof -
  have 1: "\<forall>b' n e. Write b p = Inr (b', n, Some e) \<longrightarrow> e = ErrTooLarge \<and> n = 0 \<and> b' = b"
    using Write_returns_error [of b p] by blast
  then have 2: "\<forall>b' n e. WriteString b p = Inr (b', n, Some e) \<longrightarrow>
                  e = ErrTooLarge \<and> n = 0 \<and> b' = b"
    by (simp add: WriteString_Write)
  have 3: "\<forall>b' e. WriteByte b c = Inr (b', Some e) \<longrightarrow> e = ErrTooLarge \<and> b' = b"
    using WriteByte_returns_error [of b c] by blast
  have 4: "\<forall>b' n e. WriteRune b r = Inr (b', n, e) \<longrightarrow> e = None"
    using WriteRune_returns [of b r] by blast
  have 5: "0 \<le> off b \<and> off b + int (length p) \<le> MaxInt \<and> Cap b < off b + int (length p) \<longrightarrow>
      Write b p = Inr (b, 0, Some ErrTooLarge) \<and> WriteString b p = Inr (b, 0, Some ErrTooLarge)"
    by (simp add: WriteString_Write Write_too_large)
  have 6: "0 \<le> off b \<and> off b + 1 \<le> MaxInt \<and> Cap b < off b + 1 \<longrightarrow>
      WriteByte b c = Inr (b, Some ErrTooLarge)"
    by (simp add: WriteByte_too_large)
  have 7: "r <s 0x80 \<and> 0 \<le> off b \<and> off b + 1 \<le> MaxInt \<and> Cap b < off b + 1 \<longrightarrow>
      WriteRune b r = Inr (b, 1, None)"
    by (simp add: WriteRune_def WriteByte_too_large)
  have 8: "\<not> r <s 0x80 \<and> 0 \<le> off b \<and> off b + int (length (EncodeRune r)) \<le> MaxInt \<and>
    Cap b < off b + int (length (EncodeRune r)) \<longrightarrow>
      (\<exists>b'. WriteRune b r = Inr (b', int (length (EncodeRune r)), None) \<and>
            buf b' = buf b \<and> off b' = off b)"
  proof (intro impI, elim conjE)
    let ?b1 = "b\<lparr>runeBytes := scratch_store (EncodeRune r) (runeBytes b)\<rparr>"
    assume multi: "\<not> r <s 0x80" and o: "0 \<le> off b"
      and m: "off b + int (length (EncodeRune r)) \<le> MaxInt"
      and c: "Cap b < off b + int (length (EncodeRune r))"
    have "0 \<le> off ?b1" and "off ?b1 + int (length (EncodeRune r)) \<le> MaxInt"
      and "Cap ?b1 < off ?b1 + int (length (EncodeRune r))"
      using o m c by (simp_all add: Cap_def)
    then have "Write ?b1 (EncodeRune r) = Inr (?b1, 0, Some ErrTooLarge)"
      by (rule Write_too_large)
    with multi show "\<exists>b'. WriteRune b r = Inr (b', int (length (EncodeRune r)), None) \<and>
            buf b' = buf b \<and> off b' = off b"
      by (simp add: WriteRune_multibyte_Write)
  qed
  from 1 2 3 4 5 6 7 8 show ?thesis by (intro conjI)
qed

theorem too_large_writes_nothing_witness:
  "Write (NewBuffer \<lparr>elems = [0x41], spare = []\<rparr>) [1, 2] =
     Inr (NewBuffer \<lparr>elems = [0x41], spare = []\<rparr>, 0, Some ErrTooLarge) \<and>
   WriteString (NewBuffer \<lparr>elems = [0x41], spare = []\<rparr>) [1, 2] =
     Inr (NewBuffer \<lparr>elems = [0x41], spare = []\<rparr>, 0, Some ErrTooLarge) \<and>
   WriteByte zero_Buffer 0x42 = Inr (zero_Buffer, Some ErrTooLarge) \<and>
   WriteRune zero_Buffer 0x41 = Inr (zero_Buffer, 1, None)"
proof -
  let ?b = "NewBuffer \<lparr>elems = [0x41], spare = []\<rparr>"
  have c1: "0 \<le> off ?b \<and> off ?b + int (length [1 :: byte, 2]) \<le> MaxInt \<and>
            Cap ?b < off ?b + int (length [1 :: byte, 2])"
    by (simp add: Cap_def cap_def NewBuffer_def MaxInt_def)
  have c0: "0 \<le> off zero_Buffer \<and> off zero_Buffer + 1 \<le> MaxInt \<and>
            Cap zero_Buffer < off zero_Buffer + 1"
    by (simp add: Cap_def cap_def zero_Buffer_def MaxInt_def)
  have a: "(0x41 :: rune) <s 0x80" by simp
  from too_large_writes_nothing [where b = ?b and p = "[1, 2]"] c1
  have w: "Write ?b [1, 2] = Inr (?b, 0, Some ErrTooLarge) \<and>
           WriteString ?b [1, 2] = Inr (?b, 0, Some ErrTooLarge)"
    by blast
  from too_large_writes_nothing [where b = zero_Buffer and c = "0x42" and r = "0x41"] c0 a
  have "WriteByte zero_Buffer 0x42 = Inr (zero_Buffer, Some ErrTooLarge) \<and>
        WriteRune zero_Buffer 0x41 = Inr (zero_Buffer, 1, None)"
    by blast
  with w show ?thesis by blast
qed

text \<open>
  C9. On a buffer whose region is a full slice the claim holds
  (\<open>WriteRune_single_byte_full_region\<close>): \<^verbatim>\<open>WriteRune\<close> of a rune below \<^verbatim>\<open>utf8.RuneSelf\<close>
  returns 1 and no error, also when \<^verbatim>\<open>WriteByte\<close> has returned \<open>ErrTooLarge\<close>. It does
  not return so unconditionally: on the region \<^verbatim>\<open>make([]byte, 0, 5)\<close> the check of the
  inner \<^verbatim>\<open>WriteByte\<close> against the capacity passes, the index expression \<^verbatim>\<open>b.buf[0]\<close> panics,
  and \<^verbatim>\<open>WriteRune\<close> panics with it.
\<close>

theorem WriteRune_single_byte_panics:
  "(0x41 :: rune) <s 0x80 \<and>
   WriteRune (NewBuffer \<lparr>elems = [], spare = [0, 0, 0, 0, 0]\<rparr>) 0x41 = Inl IndexOutOfRange"
  by (simp add: WriteRune_def WriteByte_def checkLen_def NewBuffer_def cap_def len_def
      int_add_def)

text \<open>
  C10. The claim has every write to the zero-value buffer fail. \<^verbatim>\<open>checkLen\<close> lets a write of
  no bytes pass: \<^verbatim>\<open>Write\<close> of an empty slice returns 0 and no error.
\<close>

theorem zero_Buffer_empty_write:
  "Write zero_Buffer [] = Inr (zero_Buffer, 0, None)"
  by code_simp

text \<open>
  C10, as amended. The zero-value buffer has capacity 0, and every write of at least
  one byte to it (\<^verbatim>\<open>Write\<close> of a non-empty slice, \<^verbatim>\<open>WriteString\<close> of a non-empty string, each
  of a length of Go, at most \<open>MaxInt\<close>; \<^verbatim>\<open>WriteByte\<close>) returns \<open>ErrTooLarge\<close>, with the count 0
  and the buffer still the zero value.
\<close>

theorem zero_Buffer_rejects_writes:
  "Cap zero_Buffer = 0 \<and>
   (p \<noteq> [] \<and> int (length p) \<le> MaxInt \<longrightarrow>
      Write zero_Buffer p = Inr (zero_Buffer, 0, Some ErrTooLarge)) \<and>
   (s \<noteq> [] \<and> int (length s) \<le> MaxInt \<longrightarrow>
      WriteString zero_Buffer s = Inr (zero_Buffer, 0, Some ErrTooLarge)) \<and>
   WriteByte zero_Buffer c = Inr (zero_Buffer, Some ErrTooLarge)"
proof -
  have c: "Cap zero_Buffer = 0" and o: "off zero_Buffer = 0"
    by (simp_all add: Cap_def cap_def zero_Buffer_def)
  have w: "q \<noteq> [] \<and> int (length q) \<le> MaxInt \<longrightarrow>
             Write zero_Buffer q = Inr (zero_Buffer, 0, Some ErrTooLarge)"
    for q :: "byte list"
  proof (intro impI, elim conjE)
    assume "q \<noteq> []" and "int (length q) \<le> MaxInt"
    then have "0 \<le> off zero_Buffer" and "off zero_Buffer + int (length q) \<le> MaxInt"
      and "Cap zero_Buffer < off zero_Buffer + int (length q)"
      by (simp_all add: c o)
    then show "Write zero_Buffer q = Inr (zero_Buffer, 0, Some ErrTooLarge)"
      by (rule Write_too_large)
  qed
  have "WriteByte zero_Buffer c = Inr (zero_Buffer, Some ErrTooLarge)"
    by (rule WriteByte_too_large) (simp_all add: c o MaxInt_def)
  with c w [of p] w [of s] show ?thesis
    by (simp add: WriteString_Write)
qed

theorem zero_Buffer_rejects_writes_witness:
  "int (length [0x41 :: byte]) \<le> MaxInt \<and> int (length [0x41 :: byte, 0x42]) \<le> MaxInt \<and>
   Write zero_Buffer [0x41] = Inr (zero_Buffer, 0, Some ErrTooLarge) \<and>
   WriteString zero_Buffer [0x41, 0x42] = Inr (zero_Buffer, 0, Some ErrTooLarge) \<and>
   WriteByte zero_Buffer 0x41 = Inr (zero_Buffer, Some ErrTooLarge)"
  using zero_Buffer_rejects_writes [of "[0x41]" "[0x41, 0x42]" "0x41"]
  by (simp add: MaxInt_def)

end
